theory Spec2Isabelle
  imports Main "HOL-Library.Word" "HOL-Library.Stream"
begin

unbundle bit_operations_syntax

section \<open>The directory notifier: data model\<close>

text \<open>
  The package \<open>dirnotifier\<close> watches one directory through an \<open>fsnotify\<close> watcher and
  hands out one-shot channels, one per file name, that a background goroutine closes
  when an event for that file arrives.

  \<open>fsnotify.Op\<close> is a \<open>uint32\<close> bitmask and \<open>fsnotify.Event\<close> carries a file name and
  such a mask. The five flags are the library's constants (\<open>1 << iota\<close>).
\<close>

type_synonym Op = "32 word"

definition Create :: Op where "Create = 1"
definition Write :: Op where "Write = 2"
definition Remove :: Op where "Remove = 4"
definition Rename :: Op where "Rename = 8"
definition Chmod :: Op where "Chmod = 16"

record Event =
  Name :: string
  Op :: Op

text \<open>
  A Go channel of type \<open>chan struct{}\<close> is a heap object. Nothing in the package sends
  on such a channel; the only operations are \<open>make\<close> and \<open>close\<close>, so a channel is
  modelled by its address (its index in the list of channels made so far) and by
  whether it has been closed. Closing a channel that is already closed panics. An
  address beyond the channels made so far does not occur in a Go program; closing it is
  modelled as the same panic.
\<close>

type_synonym chan = nat

datatype chan_state = Open | Closed

datatype panic = CloseOfClosedChannel

type_synonym error = string

text \<open>
  Of the \<open>fsnotify.Watcher\<close> the package uses \<open>Add\<close>, \<open>Close\<close> and the channel
  \<open>Events\<close>. The record keeps the directories added and how often \<open>Close\<close> ran; what
  the channel \<open>Events\<close> delivers is an argument of the loop that reads it.
\<close>

record Watcher =
  watches :: "string list"
  closeCalls :: nat

record DirectoryNotifier =
  watcher :: Watcher
  filesToNotifiers :: "string \<rightharpoonup> chan"
  opsToWatch :: "Op list"
  dir :: string

text \<open>
  A state is the notifier object together with the channels of the Go heap: the value
  of \<open>filesToNotifiers\<close> at a file name is the address of a channel in \<open>chans\<close>.
\<close>

record state = DirectoryNotifier +
  chans :: "chan_state list"

section \<open>Primitives of the Go runtime and of \<open>sync.Map\<close>\<close>

definition make_chan :: "chan_state list \<Rightarrow> chan \<times> chan_state list" where
  "make_chan h = (length h, h @ [Open])"

definition close_chan :: "chan \<Rightarrow> state \<Rightarrow> panic + state" where
  "close_chan c s =
     (if c < length (chans s) \<and> chans s ! c = Open
      then Inr (s\<lparr>chans := (chans s)[c := Closed]\<rparr>)
      else Inl CloseOfClosedChannel)"

text \<open>
  \<open>LoadOrStore\<close> returns the existing value and \<open>true\<close> when the key is present, and
  otherwise stores the given value and returns it with \<open>false\<close>. \<open>LoadAndDelete\<close>
  removes the key and returns the value it had, if any.
\<close>

definition LoadOrStore ::
  "('k \<rightharpoonup> 'v) \<Rightarrow> 'k \<Rightarrow> 'v \<Rightarrow> ('v \<times> bool) \<times> ('k \<rightharpoonup> 'v)" where
  "LoadOrStore m k v =
     (case m k of
        Some actual \<Rightarrow> ((actual, True), m)
      | None \<Rightarrow> ((v, False), m(k \<mapsto> v)))"

definition LoadAndDelete :: "('k \<rightharpoonup> 'v) \<Rightarrow> 'k \<Rightarrow> 'v option \<times> ('k \<rightharpoonup> 'v)" where
  "LoadAndDelete m k = (m k, m(k := None))"

definition Close :: "Watcher \<Rightarrow> Watcher" where
  "Close w = w\<lparr>closeCalls := Suc (closeCalls w)\<rparr>"

section \<open>The operations of the package\<close>

subsection \<open>\<open>NotifierForFile\<close>\<close>

text \<open>
  The Go function returns a pair \<open>(chan struct{}, error)\<close>; \<open>None\<close> stands for
  \<open>nil\<close> in either component. The channel is made before the registry is consulted,
  so a failing call leaves one more (unreferenced) channel on the heap.
\<close>

definition NotifierForFile ::
  "state \<Rightarrow> string \<Rightarrow> (chan option \<times> error option) \<times> state" where
  "NotifierForFile s file =
     (case make_chan (chans s) of
        (c, h) \<Rightarrow>
          (case LoadOrStore (filesToNotifiers s) file c of
             ((_, True), m) \<Rightarrow>
               ((None, Some (''exec watcher already watching file '' @ file)),
                s\<lparr>filesToNotifiers := m, chans := h\<rparr>)
           | ((_, False), m) \<Rightarrow>
               ((Some c, None), s\<lparr>filesToNotifiers := m, chans := h\<rparr>)))"

definition Directory :: "state \<Rightarrow> string" where
  "Directory s = dir s"

subsection \<open>The dispatch loop \<open>initializeWatcher\<close>\<close>

text \<open>
  The test of line 41: the event's mask, intersected with \<open>op\<close>, equals \<open>op\<close>.
\<close>

definition carries :: "Op \<Rightarrow> Op \<Rightarrow> bool" where
  "carries evop op \<longleftrightarrow> evop AND op = op"

text \<open>
  The inner loop is \<open>for op := range dn.opsToWatch\<close>. With a single loop variable, Go's
  \<open>range\<close> over a slice yields the indices \<open>0, 1, ..., len - 1\<close>, not the elements,
  and \<open>fsnotify.Op(op)\<close> converts the index (an \<open>int\<close>) to \<open>uint32\<close>, keeping its low
  32 bits. The function below runs the loop body over a list of such indices. The
  \<open>break\<close> is taken only when an entry was found and its channel closed.
\<close>

fun opsLoop :: "nat list \<Rightarrow> Event \<Rightarrow> state \<Rightarrow> panic + state" where
  "opsLoop [] event s = Inr s"
| "opsLoop (op # rest) event s =
     (if carries (Op event) (of_nat op) then
        (case LoadAndDelete (filesToNotifiers s) (Name event) of
           (Some notifyChan, m) \<Rightarrow> close_chan notifyChan (s\<lparr>filesToNotifiers := m\<rparr>)
         | (None, m) \<Rightarrow> opsLoop rest event (s\<lparr>filesToNotifiers := m\<rparr>))
      else opsLoop rest event s)"

definition handleEvent :: "Event \<Rightarrow> state \<Rightarrow> panic + state" where
  "handleEvent event s = opsLoop [0 ..< length (opsToWatch s)] event s"

text \<open>
  The body of the outer loop applied to a finite run of events, stopping at a panic.
\<close>

fun handleEvents :: "Event list \<Rightarrow> state \<Rightarrow> panic + state" where
  "handleEvents [] s = Inr s"
| "handleEvents (event # events) s =
     (case handleEvent event s of
        Inl p \<Rightarrow> Inl p
      | Inr s' \<Rightarrow> handleEvents events s')"

text \<open>
  \<open>for event := range dn.watcher.Events\<close> receives until the channel is closed. What
  the channel delivers is a stream of receive results: \<open>Some event\<close> for an event,
  \<open>None\<close> when the channel is found closed. A stream without \<open>None\<close> is an event
  source that is never closed; on it the loop does not return, which is the value
  \<open>None\<close> of \<open>eventLoop\<close>.
\<close>

partial_function (option) eventLoop ::
  "Event option stream \<Rightarrow> state \<Rightarrow> (panic + state) option" where
  "eventLoop events s =
     (case shd events of
        None \<Rightarrow> Some (Inr s)
      | Some event \<Rightarrow>
          (case handleEvent event s of
             Inl p \<Rightarrow> Some (Inl p)
           | Inr s' \<Rightarrow> eventLoop (stl events) s'))"

text \<open>
  \<open>defer dn.watcher.Close()\<close> runs when the loop is left. A panic of the goroutine
  ends the whole process; the model keeps only the panic then.
\<close>

definition initializeWatcher ::
  "Event option stream \<Rightarrow> state \<Rightarrow> (panic + state) option" where
  "initializeWatcher events s =
     (case eventLoop events s of
        None \<Rightarrow> None
      | Some (Inl p) \<Rightarrow> Some (Inl p)
      | Some (Inr s') \<Rightarrow> Some (Inr (s'\<lparr>watcher := Close (watcher s')\<rparr>)))"

subsection \<open>\<open>New\<close>\<close>

text \<open>
  \<open>fsnotify.NewWatcher\<close> and \<open>Watcher.Add\<close> belong to the library and their outcome
  depends on the operating system, so the outcomes are parameters: the error of
  \<open>NewWatcher\<close>, if any, and the error of \<open>Add\<close> for each directory, if any.
\<close>

record fsnotify =
  NewWatcher_err :: "error option"
  Add_err :: "string \<Rightarrow> error option"

text \<open>
  Besides the two values it returns, \<open>New\<close> has one effect: the statement
  \<open>go dn.initializeWatcher()\<close> starts a goroutine on the notifier. The field
  \<open>goroutine\<close> holds the notifier that goroutine runs on, \<open>None\<close> when the statement
  was not reached. The goroutine is started before \<open>Add\<close> is called.
\<close>

record New_result =
  notifier :: "state option"
  err :: "error option"
  goroutine :: "state option"

definition New :: "fsnotify \<Rightarrow> chan_state list \<Rightarrow> string \<Rightarrow> Op list \<Rightarrow> New_result" where
  "New lib h d ops =
     (case NewWatcher_err lib of
        Some e \<Rightarrow> \<lparr>notifier = None, err = Some e, goroutine = None\<rparr>
      | None \<Rightarrow>
          (let dn = \<lparr>watcher = \<lparr>watches = [], closeCalls = 0\<rparr>,
                     filesToNotifiers = Map.empty, opsToWatch = ops, dir = d,
                     chans = h\<rparr>
           in case Add_err lib d of
                Some e \<Rightarrow> \<lparr>notifier = None, err = Some e, goroutine = Some dn\<rparr>
              | None \<Rightarrow>
                  (let dn' = dn\<lparr>watcher := (watcher dn)\<lparr>watches := [d]\<rparr>\<rparr>
                   in \<lparr>notifier = Some dn', err = None, goroutine = Some dn'\<rparr>)))"

section \<open>Invariant and example states\<close>

text \<open>
  The invariant of the states the package reaches: every channel stored in the registry
  has been made and is open, and no channel is stored under two file names. \<open>New\<close>
  establishes it, \<open>NotifierForFile\<close> and the dispatch loop preserve it (lemmas
  \<open>New_invar\<close>, \<open>NotifierForFile_invar\<close>, \<open>handleEvent_invar\<close>).
\<close>

definition invar :: "state \<Rightarrow> bool" where
  "invar s \<longleftrightarrow>
     (\<forall>p c. filesToNotifiers s p = Some c \<longrightarrow> c < length (chans s) \<and> chans s ! c = Open) \<and>
     (\<forall>p q c. filesToNotifiers s p = Some c \<and> filesToNotifiers s q = Some c \<longrightarrow> p = q)"

text \<open>
  A notifier on \<open>/d\<close> for \<open>Write\<close>: as \<open>New\<close> returns it, with \<open>/d/a\<close> registered,
  and after that registration has been resolved.
\<close>

definition example_new :: state where
  "example_new =
     \<lparr>watcher = \<lparr>watches = [''/d''], closeCalls = 0\<rparr>,
      filesToNotifiers = Map.empty, opsToWatch = [Write], dir = ''/d'',
      chans = []\<rparr>"

definition example_pending :: state where
  "example_pending =
     \<lparr>watcher = \<lparr>watches = [''/d''], closeCalls = 0\<rparr>,
      filesToNotifiers = [''/d/a'' \<mapsto> 0], opsToWatch = [Write], dir = ''/d'',
      chans = [Open]\<rparr>"

definition example_resolved :: state where
  "example_resolved =
     \<lparr>watcher = \<lparr>watches = [''/d''], closeCalls = 0\<rparr>,
      filesToNotifiers = Map.empty, opsToWatch = [Write], dir = ''/d'',
      chans = [Closed]\<rparr>"

text \<open>
  The same registration on a notifier for \<open>Remove\<close> and \<open>Rename\<close>.
\<close>

definition example_two_ops :: state where
  "example_two_ops =
     \<lparr>watcher = \<lparr>watches = [''/d''], closeCalls = 0\<rparr>,
      filesToNotifiers = [''/d/a'' \<mapsto> 0], opsToWatch = [Remove, Rename], dir = ''/d'',
      chans = [Open]\<rparr>"

text \<open>
  The registry entry of \<open>Q\<close> is the same in \<open>s'\<close> as in \<open>s\<close>: present or absent
  alike, with the same channel, and that channel in the same state.
\<close>

definition entry_unchanged :: "string \<Rightarrow> state \<Rightarrow> state \<Rightarrow> bool" where
  "entry_unchanged Q s s' \<longleftrightarrow>
     filesToNotifiers s' Q = filesToNotifiers s Q \<and>
     (case filesToNotifiers s Q of
        None \<Rightarrow> True
      | Some d \<Rightarrow> chans s' ! d = chans s ! d)"

section \<open>Properties of the primitives and of the loop body\<close>

lemma carries_zero: "carries x 0"
  by (simp add: carries_def)

lemma opsLoop_absent:
  "filesToNotifiers s (Name event) = None \<Longrightarrow> opsLoop is event s = Inr s"
  by (induction "is") (simp_all add: LoadAndDelete_def fun_upd_idem)

lemma opsLoop_no_index:
  "\<forall>i\<in>set is. \<not> carries (Op event) (of_nat i) \<Longrightarrow> opsLoop is event s = Inr s"
  by (induction "is") simp_all

lemma opsLoop_present:
  "filesToNotifiers s (Name event) = Some c \<Longrightarrow> \<exists>i\<in>set is. carries (Op event) (of_nat i) \<Longrightarrow>
   opsLoop is event s =
     close_chan c (s\<lparr>filesToNotifiers := (filesToNotifiers s)(Name event := None)\<rparr>)"
  by (induction "is") (auto simp add: LoadAndDelete_def)

lemma handleEvent_cases:
  "handleEvent event s =
     (case filesToNotifiers s (Name event) of
        None \<Rightarrow> Inr s
      | Some c \<Rightarrow>
          if opsToWatch s = [] then Inr s
          else close_chan c (s\<lparr>filesToNotifiers := (filesToNotifiers s)(Name event := None)\<rparr>))"
proof (cases "filesToNotifiers s (Name event)")
  case None
  then show ?thesis by (simp add: handleEvent_def opsLoop_absent)
next
  case (Some c)
  show ?thesis
  proof (cases "opsToWatch s = []")
    case True
    then show ?thesis using Some by (simp add: handleEvent_def)
  next
    case False
    then have "\<exists>i\<in>set [0 ..< length (opsToWatch s)]. carries (Op event) (of_nat i)"
      by (intro bexI [of _ 0]) (simp_all add: carries_zero)
    then show ?thesis using Some False by (simp add: handleEvent_def opsLoop_present)
  qed
qed

lemma close_chan_Open:
  "c < length (chans s) \<Longrightarrow> chans s ! c = Open \<Longrightarrow>
   close_chan c s = Inr (s\<lparr>chans := (chans s)[c := Closed]\<rparr>)"
  by (simp add: close_chan_def)

lemma handleEvent_resolves:
  assumes "invar s" and "filesToNotifiers s (Name event) = Some c" and "opsToWatch s \<noteq> []"
  shows "handleEvent event s =
           Inr (s\<lparr>filesToNotifiers := (filesToNotifiers s)(Name event := None),
                  chans := (chans s)[c := Closed]\<rparr>)"
proof -
  from assms(1,2) have "c < length (chans s)" and "chans s ! c = Open"
    by (auto simp add: invar_def)
  then show ?thesis using assms(2,3)
    by (simp add: handleEvent_cases close_chan_def)
qed

lemma handleEvent_absent:
  "filesToNotifiers s (Name event) = None \<Longrightarrow> handleEvent event s = Inr s"
  by (simp add: handleEvent_cases)

lemma handleEvent_no_ops:
  "opsToWatch s = [] \<Longrightarrow> handleEvent event s = Inr s"
  by (simp add: handleEvent_cases split: option.split)

lemma invar_resolved:
  assumes "invar s" and "filesToNotifiers s p = Some c"
  shows "invar (s\<lparr>filesToNotifiers := (filesToNotifiers s)(p := None),
                  chans := (chans s)[c := Closed]\<rparr>)"
  using assms unfolding invar_def
  by (auto simp add: nth_list_update split: if_splits)

lemma handleEvent_invar:
  assumes "invar s"
  shows "\<exists>s'. handleEvent event s = Inr s' \<and> invar s' \<and> watcher s' = watcher s
           \<and> opsToWatch s' = opsToWatch s \<and> dir s' = dir s"
proof (cases "filesToNotifiers s (Name event)")
  case None
  then show ?thesis using assms by (simp add: handleEvent_absent)
next
  case (Some c)
  show ?thesis
  proof (cases "opsToWatch s = []")
    case True
    then show ?thesis using assms by (simp add: handleEvent_no_ops)
  next
    case False
    then show ?thesis
      using assms Some invar_resolved [OF assms Some]
      by (simp add: handleEvent_resolves)
  qed
qed

lemma NotifierForFile_present:
  "filesToNotifiers s file = Some c \<Longrightarrow>
   NotifierForFile s file =
     ((None, Some (''exec watcher already watching file '' @ file)),
      s\<lparr>chans := chans s @ [Open]\<rparr>)"
  by (simp add: NotifierForFile_def make_chan_def LoadOrStore_def)

lemma NotifierForFile_absent:
  "filesToNotifiers s file = None \<Longrightarrow>
   NotifierForFile s file =
     ((Some (length (chans s)), None),
      s\<lparr>filesToNotifiers := (filesToNotifiers s)(file \<mapsto> length (chans s)),
        chans := chans s @ [Open]\<rparr>)"
  by (simp add: NotifierForFile_def make_chan_def LoadOrStore_def)

lemma invarI:
  assumes "\<And>p c. filesToNotifiers s p = Some c \<Longrightarrow> c < length (chans s) \<and> chans s ! c = Open"
    and "\<And>p q c. filesToNotifiers s p = Some c \<Longrightarrow> filesToNotifiers s q = Some c \<Longrightarrow> p = q"
  shows "invar s"
  unfolding invar_def using assms by blast

lemma invar_bound:
  "invar s \<Longrightarrow> filesToNotifiers s p = Some c \<Longrightarrow> c < length (chans s) \<and> chans s ! c = Open"
  unfolding invar_def by blast

lemma invar_inj:
  "invar s \<Longrightarrow> filesToNotifiers s p = Some c \<Longrightarrow> filesToNotifiers s q = Some c \<Longrightarrow> p = q"
  unfolding invar_def by blast

lemma invar_alloc:
  assumes "invar s"
  shows "invar (s\<lparr>chans := chans s @ [Open]\<rparr>)"
proof (rule invarI)
  fix p c
  assume "filesToNotifiers (s\<lparr>chans := chans s @ [Open]\<rparr>) p = Some c"
  then have "filesToNotifiers s p = Some c" by simp
  from invar_bound [OF assms this]
  show "c < length (chans (s\<lparr>chans := chans s @ [Open]\<rparr>)) \<and>
        chans (s\<lparr>chans := chans s @ [Open]\<rparr>) ! c = Open"
    by (simp add: nth_append)
next
  fix p q c
  assume "filesToNotifiers (s\<lparr>chans := chans s @ [Open]\<rparr>) p = Some c"
    and "filesToNotifiers (s\<lparr>chans := chans s @ [Open]\<rparr>) q = Some c"
  then show "p = q" using invar_inj [OF assms, of p c q] by simp
qed

lemma invar_store:
  assumes "invar s" and "filesToNotifiers s file = None"
  shows "invar (s\<lparr>filesToNotifiers := (filesToNotifiers s)(file \<mapsto> length (chans s)),
                  chans := chans s @ [Open]\<rparr>)"
    (is "invar ?s'")
proof (rule invarI)
  fix p c
  assume a: "filesToNotifiers ?s' p = Some c"
  show "c < length (chans ?s') \<and> chans ?s' ! c = Open"
  proof (cases "p = file")
    case True
    then show ?thesis using a by auto
  next
    case False
    then have "filesToNotifiers s p = Some c" using a by simp
    from invar_bound [OF assms(1) this] show ?thesis by (simp add: nth_append)
  qed
next
  fix p q c
  assume a: "filesToNotifiers ?s' p = Some c" and b: "filesToNotifiers ?s' q = Some c"
  have old: "r \<noteq> file \<Longrightarrow> filesToNotifiers ?s' r = Some c \<Longrightarrow> c < length (chans s)" for r
    using invar_bound [OF assms(1), of r c] by simp
  have new: "filesToNotifiers ?s' file = Some (length (chans s))" by simp
  show "p = q"
  proof (cases "p = file")
    case True
    then have "c = length (chans s)" using a by simp
    then have "q = file" using old [of q] b by (cases "q = file") auto
    then show ?thesis using True by simp
  next
    case False
    then have c: "c < length (chans s)" using old a by blast
    then have "q \<noteq> file" using b by (cases "q = file") auto
    then show ?thesis using False a b invar_inj [OF assms(1), of p c q] by simp
  qed
qed

lemma NotifierForFile_invar:
  assumes "invar s"
  shows "invar (snd (NotifierForFile s file))"
proof (cases "filesToNotifiers s file")
  case None
  then show ?thesis using invar_store [OF assms None]
    by (simp add: NotifierForFile_absent)
next
  case (Some c)
  then show ?thesis using invar_alloc [OF assms]
    by (simp add: NotifierForFile_present)
qed

lemma New_invar:
  "notifier (New lib h d ops) = Some s \<Longrightarrow> invar s"
  by (auto simp add: New_def invar_def Let_def split: option.splits)

lemma eventLoop_prefix:
  "\<forall>k<n. events !! k \<noteq> None \<Longrightarrow> events !! n = None \<Longrightarrow>
   eventLoop events s = Some (handleEvents (map the (stake n events)) s)"
proof (induction n arbitrary: events s)
  case 0
  then show ?case by (subst eventLoop.simps) simp
next
  case (Suc n)
  from Suc.prems(1) have "events !! 0 \<noteq> None" by blast
  then obtain event where ev: "shd events = Some event" by auto
  have tl: "\<forall>k<n. stl events !! k \<noteq> None" "stl events !! n = None"
    using Suc.prems by auto
  show ?case
  proof (cases "handleEvent event s")
    case (Inl p)
    then show ?thesis using ev by (subst eventLoop.simps) simp
  next
    case (Inr s')
    then show ?thesis using ev Suc.IH [OF tl, of s']
      by (subst eventLoop.simps) simp
  qed
qed

lemma handleEvents_invar:
  "invar s \<Longrightarrow> \<exists>s'. handleEvents events s = Inr s' \<and> invar s' \<and> watcher s' = watcher s
           \<and> opsToWatch s' = opsToWatch s \<and> dir s' = dir s"
proof (induction events arbitrary: s)
  case Nil
  then show ?case by simp
next
  case (Cons event events)
  from handleEvent_invar [OF Cons.prems, of event]
  obtain s1 where 1: "handleEvent event s = Inr s1" "invar s1" "watcher s1 = watcher s"
    "opsToWatch s1 = opsToWatch s" "dir s1 = dir s" by blast
  from Cons.IH [OF 1(2)] 1 show ?case by auto
qed

lemma eventLoop_returns:
  assumes "eventLoop events s = Some r" and "invar s"
  shows "\<exists>n. events !! n = None"
proof -
  have "invar s \<longrightarrow> (\<exists>n. events !! n = None)"
  proof (rule eventLoop.raw_induct
      [where P = "\<lambda>e s r. invar s \<longrightarrow> (\<exists>n. e !! n = None)", OF _ assms(1)])
    fix f :: "Event option stream \<Rightarrow> state \<Rightarrow> (panic + state) option"
    fix e s r
    assume IH: "\<And>e s r. f e s = Some r \<Longrightarrow> invar s \<longrightarrow> (\<exists>n. e !! n = None)"
      and step: "(case shd e of
                    None \<Rightarrow> Some (Inr s)
                  | Some event \<Rightarrow>
                      (case handleEvent event s of
                         Inl p \<Rightarrow> Some (Inl p)
                       | Inr s' \<Rightarrow> f (stl e) s')) = Some r"
    show "invar s \<longrightarrow> (\<exists>n. e !! n = None)"
    proof
      assume inv: "invar s"
      show "\<exists>n. e !! n = None"
      proof (cases "shd e")
        case None
        then have "e !! 0 = None" by simp
        then show ?thesis by blast
      next
        case (Some event)
        from handleEvent_invar [OF inv, of event]
        obtain s1 where s1: "handleEvent event s = Inr s1" "invar s1" by blast
        with step Some have "f (stl e) s1 = Some r" by simp
        from IH [OF this] s1(2) obtain n where "stl e !! n = None" by blast
        then have "e !! Suc n = None" by simp
        then show ?thesis by blast
      qed
    qed
  qed
  then show ?thesis using assms(2) by simp
qed

lemma first_None:
  "events !! n = None \<Longrightarrow> \<exists>m\<le>n. events !! m = None \<and> (\<forall>k<m. events !! k \<noteq> None)"
proof (induction n rule: less_induct)
  case (less n)
  show ?case
  proof (cases "\<forall>k<n. events !! k \<noteq> None")
    case True
    then show ?thesis using less.prems by blast
  next
    case False
    then obtain k where k: "k < n" "events !! k = None" by blast
    from less.IH [OF k] obtain m where "m \<le> k" "events !! m = None" "\<forall>j<m. events !! j \<noteq> None"
      by blast
    then show ?thesis using k(1) by (intro exI [of _ m]) simp
  qed
qed

lemma example_new_reached:
  "New \<lparr>NewWatcher_err = None, Add_err = \<lambda>d. None\<rparr> [] ''/d'' [Write] =
     \<lparr>notifier = Some example_new, err = None, goroutine = Some example_new\<rparr>"
  by (simp add: New_def Let_def example_new_def)

lemma example_pending_reached:
  "NotifierForFile example_new ''/d/a'' = ((Some 0, None), example_pending)"
  by (simp add: NotifierForFile_def make_chan_def LoadOrStore_def
      example_new_def example_pending_def)

lemma invar_example_pending: "invar example_pending"
  by (simp add: invar_def example_pending_def)

lemma handleEvent_removed:
  assumes "invar s" and "filesToNotifiers s P = Some c"
    and "handleEvent event s = Inr s1" and "filesToNotifiers s1 P = None"
  shows "Name event = P \<and> opsToWatch s \<noteq> [] \<and>
         s1 = s\<lparr>filesToNotifiers := (filesToNotifiers s)(P := None),
                 chans := (chans s)[c := Closed]\<rparr>"
proof (cases "filesToNotifiers s (Name event)")
  case None
  then have "s1 = s" using assms(3) by (simp add: handleEvent_absent)
  then show ?thesis using assms(2,4) by simp
next
  case (Some d)
  show ?thesis
  proof (cases "opsToWatch s = []")
    case True
    then have "s1 = s" using assms(3) by (simp add: handleEvent_no_ops)
    then show ?thesis using assms(2,4) by simp
  next
    case False
    from handleEvent_resolves [OF assms(1) Some False] assms(3)
    have s1: "s1 = s\<lparr>filesToNotifiers := (filesToNotifiers s)(Name event := None),
                      chans := (chans s)[d := Closed]\<rparr>" by simp
    have "Name event = P"
    proof (rule ccontr)
      assume "Name event \<noteq> P"
      then have "filesToNotifiers s1 P = filesToNotifiers s P" by (simp add: s1)
      then show False using assms(2,4) by simp
    qed
    then show ?thesis using s1 Some assms(2) False by simp
  qed
qed

lemma NotifierForFile_frame:
  assumes "invar s" and "P \<noteq> Q"
  shows "entry_unchanged Q s (snd (NotifierForFile s P))"
proof (cases "filesToNotifiers s Q")
  case None
  then show ?thesis using assms(2)
    by (cases "filesToNotifiers s P")
      (simp_all add: entry_unchanged_def NotifierForFile_present NotifierForFile_absent)
next
  case (Some d)
  from invar_bound [OF assms(1) Some] have "d < length (chans s)" by simp
  then show ?thesis using assms(2) Some
    by (cases "filesToNotifiers s P")
      (simp_all add: entry_unchanged_def NotifierForFile_present NotifierForFile_absent
        nth_append)
qed

lemma handleEvent_frame:
  assumes "invar s" and "Name event \<noteq> Q"
  shows "\<exists>s'. handleEvent event s = Inr s' \<and> invar s' \<and> entry_unchanged Q s s'"
proof (cases "filesToNotifiers s (Name event) = None \<or> opsToWatch s = []")
  case True
  then have "handleEvent event s = Inr s"
    using handleEvent_absent handleEvent_no_ops by blast
  then show ?thesis using assms(1)
    by (simp add: entry_unchanged_def split: option.split)
next
  case False
  then obtain c where c: "filesToNotifiers s (Name event) = Some c"
    and ops: "opsToWatch s \<noteq> []" by auto
  let ?s' = "s\<lparr>filesToNotifiers := (filesToNotifiers s)(Name event := None),
                chans := (chans s)[c := Closed]\<rparr>"
  have 1: "handleEvent event s = Inr ?s'"
    using assms(1) c ops by (rule handleEvent_resolves)
  have 2: "invar ?s'" using assms(1) c by (rule invar_resolved)
  have 3: "entry_unchanged Q s ?s'"
  proof (cases "filesToNotifiers s Q")
    case None
    then show ?thesis using assms(2) by (simp add: entry_unchanged_def)
  next
    case (Some d)
    have "d \<noteq> c" using invar_inj [OF assms(1) Some, of "Name event"] c assms(2) by auto
    then show ?thesis using Some assms(2) by (simp add: entry_unchanged_def)
  qed
  from 1 2 3 show ?thesis by blast
qed

lemma entry_unchanged_trans:
  "entry_unchanged Q s s1 \<Longrightarrow> entry_unchanged Q s1 s2 \<Longrightarrow> entry_unchanged Q s s2"
  by (auto simp add: entry_unchanged_def split: option.splits)

lemma handleEvents_no_ops:
  "opsToWatch s = [] \<Longrightarrow> handleEvents events s = Inr s"
  by (induction events) (simp_all add: handleEvent_no_ops)

lemma eventLoop_ends:
  assumes "events !! n = None"
  shows "\<exists>m\<le>n. events !! m = None \<and> (\<forall>k<m. events !! k \<noteq> None) \<and>
           eventLoop events s = Some (handleEvents (map the (stake m events)) s)"
proof -
  from first_None [OF assms] obtain m
    where m: "m \<le> n" "events !! m = None" "\<forall>k<m. events !! k \<noteq> None" by blast
  from eventLoop_prefix [OF m(3) m(2)] m show ?thesis by blast
qed

lemma initializeWatcher_diverges:
  assumes "invar s" and "\<forall>n. events !! n \<noteq> None"
  shows "initializeWatcher events s = None"
proof (cases "eventLoop events s")
  case None
  then show ?thesis by (simp add: initializeWatcher_def)
next
  case (Some r)
  from eventLoop_returns [OF Some assms(1)] assms(2) show ?thesis by blast
qed

lemma New_Add_fails:
  "NewWatcher_err lib = None \<Longrightarrow> Add_err lib d = Some e \<Longrightarrow>
   notifier (New lib h d ops) = None \<and> err (New lib h d ops) = Some e \<and>
   goroutine (New lib h d ops) \<noteq> None"
  by (simp add: New_def Let_def)

section \<open>The claims\<close>

text \<open>
  C1 (the code departs from the claim). The claim: an event for a path whose mask contains
  none of the configured operations leaves a pending registration for that path in
  place. The code: with \<open>Write\<close> as the only configured operation and \<open>/d/a\<close> pending,
  a \<open>Create\<close> event for \<open>/d/a\<close> removes the entry and closes its channel, because the
  inner loop tests the index \<open>0\<close>, and every mask carries \<open>0\<close>.
\<close>

theorem nonmatching_event_resolves:
  "opsToWatch example_pending = [Write] \<and> \<not> carries Create Write \<and>
   filesToNotifiers example_pending ''/d/a'' = Some 0 \<and>
   chans example_pending ! 0 = Open \<and>
   handleEvent \<lparr>Name = ''/d/a'', Op = Create\<rparr> example_pending = Inr example_resolved \<and>
   filesToNotifiers example_resolved ''/d/a'' = None \<and>
   chans example_resolved ! 0 = Closed"
  by (simp add: example_pending_def example_resolved_def handleEvent_def carries_def
      LoadAndDelete_def close_chan_def Create_def Write_def)

text \<open>
  C2 (the code departs from the claim). The claim: an event matches exactly when its mask
  carries one of the configured operations, tried in the order given to \<open>New\<close>. The
  code tries the indices of the slice instead of its elements: with \<open>Remove\<close> and
  \<open>Rename\<close> configured, a \<open>Write\<close> event carries neither of them and still resolves
  the registration for its path. By \<open>handleEvent_cases\<close> an event resolves a present
  entry exactly when the configured slice is not empty.
\<close>

theorem index_tested_instead_of_operation:
  "opsToWatch example_two_ops = [Remove, Rename] \<and>
   \<not> carries Write Remove \<and> \<not> carries Write Rename \<and>
   filesToNotifiers example_two_ops ''/d/a'' = Some 0 \<and>
   handleEvent \<lparr>Name = ''/d/a'', Op = Write\<rparr> example_two_ops =
     Inr (example_two_ops\<lparr>filesToNotifiers := Map.empty, chans := [Closed]\<rparr>)"
  by (simp add: example_two_ops_def handleEvent_def carries_def
      LoadAndDelete_def close_chan_def Remove_def Rename_def Write_def)

text \<open>
  C3 (the code departs from the claim). The claim: when the directory cannot be watched,
  \<open>New\<close> returns the error and leaves no dispatch goroutine behind. The code: when
  \<open>Add\<close> fails, \<open>New\<close> returns \<open>nil\<close> and the error, but the goroutine was started
  before \<open>Add\<close> was called and the watcher is not closed on that path, so the
  goroutine stays in its loop (\<open>initializeWatcher_diverges\<close>: the loop does not return
  while the stream of events has no end).
\<close>

theorem failed_Add_leaves_goroutine:
  "New \<lparr>NewWatcher_err = None, Add_err = \<lambda>d. Some ''no such file or directory''\<rparr>
       [] ''/nonexistent'' [Write] =
     \<lparr>notifier = None, err = Some ''no such file or directory'',
      goroutine = Some \<lparr>watcher = \<lparr>watches = [], closeCalls = 0\<rparr>,
                         filesToNotifiers = Map.empty, opsToWatch = [Write],
                         dir = ''/nonexistent'', chans = []\<rparr>\<rparr>"
  by (simp add: New_def)

text \<open>
  C4. If \<open>P\<close> has a pending registration with channel \<open>c\<close> and an event for \<open>P\<close>
  carries one of the configured operations, then the channel is open before the event,
  the event removes the entry of \<open>P\<close> and closes \<open>c\<close> (one \<open>LoadAndDelete\<close> and one
  \<open>close\<close>, without panic), and the same event delivered again leaves the state as it
  is.
\<close>

theorem exactly_once:
  assumes "invar s" and "filesToNotifiers s P = Some c" and "Name event = P"
    and "\<exists>op\<in>set (opsToWatch s). carries (Op event) op"
  shows "let s1 = s\<lparr>filesToNotifiers := (filesToNotifiers s)(P := None),
                     chans := (chans s)[c := Closed]\<rparr>
         in chans s ! c = Open \<and>
            handleEvent event s = Inr s1 \<and>
            filesToNotifiers s1 P = None \<and> chans s1 ! c = Closed \<and>
            handleEvent event s1 = Inr s1 \<and>
            handleEvents [event, event] s = Inr s1"
proof -
  from assms(4) have ops: "opsToWatch s \<noteq> []" by auto
  from invar_bound [OF assms(1,2)] have c: "c < length (chans s)" "chans s ! c = Open"
    by simp_all
  have 1: "handleEvent event s =
             Inr (s\<lparr>filesToNotifiers := (filesToNotifiers s)(P := None),
                    chans := (chans s)[c := Closed]\<rparr>)"
    using handleEvent_resolves [OF assms(1) _ ops, of event c] assms(2,3) by simp
  have 2: "handleEvent event (s\<lparr>filesToNotifiers := (filesToNotifiers s)(P := None),
                                 chans := (chans s)[c := Closed]\<rparr>) =
             Inr (s\<lparr>filesToNotifiers := (filesToNotifiers s)(P := None),
                    chans := (chans s)[c := Closed]\<rparr>)"
    by (rule handleEvent_absent) (simp add: assms(3))
  show ?thesis using c 1 2 by (simp add: Let_def)
qed

theorem exactly_once_witness:
  "invar example_pending \<and> filesToNotifiers example_pending ''/d/a'' = Some 0 \<and>
   (\<exists>op\<in>set (opsToWatch example_pending). carries Write op) \<and>
   handleEvent \<lparr>Name = ''/d/a'', Op = Write\<rparr> example_pending = Inr example_resolved \<and>
   handleEvent \<lparr>Name = ''/d/a'', Op = Write\<rparr> example_resolved = Inr example_resolved"
proof -
  have m: "\<exists>op\<in>set (opsToWatch example_pending). carries (Op \<lparr>Name = ''/d/a'', Op = Write\<rparr>) op"
    by (simp add: example_pending_def carries_def)
  have r: "filesToNotifiers example_pending ''/d/a'' = Some 0"
    by (simp add: example_pending_def)
  have e: "example_pending\<lparr>filesToNotifiers := (filesToNotifiers example_pending)(''/d/a'' := None),
             chans := (chans example_pending)[0 := Closed]\<rparr> = example_resolved"
    by (simp add: example_pending_def example_resolved_def)
  from exactly_once [OF invar_example_pending r _ m] e
  show ?thesis using invar_example_pending r m by (simp add: Let_def)
qed

text \<open>
  C5. If the registry has an entry for \<open>P\<close>, \<open>NotifierForFile P\<close> returns \<open>nil\<close> and
  the error \<open>exec watcher already watching file P\<close>, the registry is unchanged and
  the channel of \<open>P\<close> is still open. If it has none, the call makes a channel that no
  entry refers to, stores it under \<open>P\<close> and returns it, open, with no error.
\<close>

theorem NotifierForFile_register:
  assumes "invar s"
  shows "(\<forall>c. filesToNotifiers s P = Some c \<longrightarrow>
            NotifierForFile s P =
              ((None, Some (''exec watcher already watching file '' @ P)),
               s\<lparr>chans := chans s @ [Open]\<rparr>) \<and>
            filesToNotifiers (snd (NotifierForFile s P)) = filesToNotifiers s \<and>
            chans (snd (NotifierForFile s P)) ! c = Open) \<and>
         (filesToNotifiers s P = None \<longrightarrow>
            NotifierForFile s P =
              ((Some (length (chans s)), None),
               s\<lparr>filesToNotifiers := (filesToNotifiers s)(P \<mapsto> length (chans s)),
                 chans := chans s @ [Open]\<rparr>) \<and>
            length (chans s) \<notin> ran (filesToNotifiers s) \<and>
            chans (snd (NotifierForFile s P)) ! length (chans s) = Open \<and>
            filesToNotifiers (snd (NotifierForFile s P)) P = Some (length (chans s)))"
proof (intro conjI allI impI)
  fix c
  assume a: "filesToNotifiers s P = Some c"
  from invar_bound [OF assms a] have c: "c < length (chans s)" "chans s ! c = Open"
    by simp_all
  show "NotifierForFile s P =
          ((None, Some (''exec watcher already watching file '' @ P)),
           s\<lparr>chans := chans s @ [Open]\<rparr>)"
    using a by (rule NotifierForFile_present)
  then show "filesToNotifiers (snd (NotifierForFile s P)) = filesToNotifiers s"
    by simp
  show "chans (snd (NotifierForFile s P)) ! c = Open"
    using c by (simp add: NotifierForFile_present [OF a] nth_append)
next
  assume a: "filesToNotifiers s P = None"
  show eq: "NotifierForFile s P =
          ((Some (length (chans s)), None),
           s\<lparr>filesToNotifiers := (filesToNotifiers s)(P \<mapsto> length (chans s)),
             chans := chans s @ [Open]\<rparr>)"
    using a by (rule NotifierForFile_absent)
  show "length (chans s) \<notin> ran (filesToNotifiers s)"
  proof
    assume "length (chans s) \<in> ran (filesToNotifiers s)"
    then obtain p where "filesToNotifiers s p = Some (length (chans s))"
      by (auto simp add: ran_def)
    from invar_bound [OF assms this] show False by simp
  qed
  show "chans (snd (NotifierForFile s P)) ! length (chans s) = Open"
    by (simp add: eq)
  show "filesToNotifiers (snd (NotifierForFile s P)) P = Some (length (chans s))"
    by (simp add: eq)
qed

theorem NotifierForFile_register_witness:
  "invar example_pending \<and>
   filesToNotifiers example_pending ''/d/a'' = Some 0 \<and>
   NotifierForFile example_pending ''/d/a'' =
     ((None, Some ''exec watcher already watching file /d/a''),
      example_pending\<lparr>chans := [Open, Open]\<rparr>) \<and>
   filesToNotifiers example_pending ''/d/b'' = None \<and>
   NotifierForFile example_pending ''/d/b'' =
     ((Some 1, None),
      example_pending\<lparr>filesToNotifiers := [''/d/a'' \<mapsto> 0, ''/d/b'' \<mapsto> 1],
                      chans := [Open, Open]\<rparr>)"
proof -
  have a: "filesToNotifiers example_pending ''/d/a'' = Some 0"
    and b: "filesToNotifiers example_pending ''/d/b'' = None"
    and h: "chans example_pending = [Open]"
    and m: "filesToNotifiers example_pending = [''/d/a'' \<mapsto> 0]"
    by (simp_all add: example_pending_def)
  from NotifierForFile_register [OF invar_example_pending, of "''/d/a''"] a
  have 1: "NotifierForFile example_pending ''/d/a'' =
     ((None, Some ''exec watcher already watching file /d/a''),
      example_pending\<lparr>chans := [Open, Open]\<rparr>)"
    by (simp add: h)
  from NotifierForFile_register [OF invar_example_pending, of "''/d/b''"] b
  have 2: "NotifierForFile example_pending ''/d/b'' =
     ((Some 1, None),
      example_pending\<lparr>filesToNotifiers := [''/d/a'' \<mapsto> 0, ''/d/b'' \<mapsto> 1],
                      chans := [Open, Open]\<rparr>)"
    by (simp add: h m)
  show ?thesis using invar_example_pending a b 1 2 by simp
qed

text \<open>
  C6. After the dispatch loop has removed the entry of \<open>P\<close> (and so closed its channel
  \<open>c\<close>), \<open>NotifierForFile P\<close> succeeds: it returns a newly made, open channel,
  different from \<open>c\<close> and from every channel in the registry, and stores it under
  \<open>P\<close>.
\<close>

theorem reregistration_after_resolution:
  assumes "invar s" and "filesToNotifiers s P = Some c"
    and "handleEvent event s = Inr s1" and "filesToNotifiers s1 P = None"
  shows "chans s1 ! c = Closed \<and>
         NotifierForFile s1 P =
           ((Some (length (chans s1)), None),
            s1\<lparr>filesToNotifiers := (filesToNotifiers s1)(P \<mapsto> length (chans s1)),
               chans := chans s1 @ [Open]\<rparr>) \<and>
         length (chans s1) \<noteq> c \<and>
         length (chans s1) \<notin> ran (filesToNotifiers s1) \<and>
         (chans s1 @ [Open]) ! length (chans s1) = Open \<and>
         invar (snd (NotifierForFile s1 P))"
proof -
  from invar_bound [OF assms(1,2)] have c: "c < length (chans s)" by simp
  from handleEvent_removed [OF assms]
  have s1: "s1 = s\<lparr>filesToNotifiers := (filesToNotifiers s)(P := None),
                    chans := (chans s)[c := Closed]\<rparr>" by simp
  have inv1: "invar s1" unfolding s1 using assms(1,2) by (rule invar_resolved)
  have closed: "chans s1 ! c = Closed" using c by (simp add: s1)
  have neq: "length (chans s1) \<noteq> c" using c by (simp add: s1)
  have fresh: "length (chans s1) \<notin> ran (filesToNotifiers s1)"
  proof
    assume "length (chans s1) \<in> ran (filesToNotifiers s1)"
    then obtain p where "filesToNotifiers s1 p = Some (length (chans s1))"
      by (auto simp add: ran_def)
    from invar_bound [OF inv1 this] show False by simp
  qed
  show ?thesis
    using closed neq fresh NotifierForFile_absent [OF assms(4)]
      NotifierForFile_invar [OF inv1, of P]
    by simp
qed

theorem reregistration_after_resolution_witness:
  "invar example_pending \<and> filesToNotifiers example_pending ''/d/a'' = Some 0 \<and>
   handleEvent \<lparr>Name = ''/d/a'', Op = Write\<rparr> example_pending = Inr example_resolved \<and>
   filesToNotifiers example_resolved ''/d/a'' = None \<and>
   chans example_resolved ! 0 = Closed \<and>
   NotifierForFile example_resolved ''/d/a'' =
     ((Some 1, None),
      example_resolved\<lparr>filesToNotifiers := [''/d/a'' \<mapsto> 1], chans := [Closed, Open]\<rparr>)"
proof -
  have a: "filesToNotifiers example_pending ''/d/a'' = Some 0"
    by (simp add: example_pending_def)
  have b: "handleEvent \<lparr>Name = ''/d/a'', Op = Write\<rparr> example_pending = Inr example_resolved"
    by (simp add: example_pending_def example_resolved_def handleEvent_def carries_def
        LoadAndDelete_def close_chan_def)
  have c: "filesToNotifiers example_resolved ''/d/a'' = None"
    and h: "chans example_resolved = [Closed]"
    and m: "filesToNotifiers example_resolved = Map.empty"
    by (simp_all add: example_resolved_def)
  from reregistration_after_resolution [OF invar_example_pending a b c]
  show ?thesis using invar_example_pending a b c by (simp add: h m)
qed

text \<open>
  C7. For distinct paths \<open>P\<close> and \<open>Q\<close>, the entry of \<open>Q\<close> (presence, channel, state of
  the channel) is the same after \<open>NotifierForFile P\<close>, after an event for \<open>P\<close>, and
  after the one followed by the other; the event is handled without panic.
\<close>

theorem unrelated_paths_independent:
  assumes "invar s" and "P \<noteq> Q" and "Name event = P"
  shows "entry_unchanged Q s (snd (NotifierForFile s P)) \<and>
         (\<exists>s'. handleEvent event s = Inr s' \<and> entry_unchanged Q s s') \<and>
         (\<exists>s'. handleEvent event (snd (NotifierForFile s P)) = Inr s' \<and>
                entry_unchanged Q s s')"
proof -
  have 1: "entry_unchanged Q s (snd (NotifierForFile s P))"
    using assms(1,2) by (rule NotifierForFile_frame)
  have ne: "Name event \<noteq> Q" using assms(2,3) by simp
  from handleEvent_frame [OF assms(1) ne]
  have 2: "\<exists>s'. handleEvent event s = Inr s' \<and> entry_unchanged Q s s'" by blast
  from handleEvent_frame [OF NotifierForFile_invar [OF assms(1)] ne, of P]
  obtain s' where "handleEvent event (snd (NotifierForFile s P)) = Inr s'"
    and "entry_unchanged Q (snd (NotifierForFile s P)) s'" by blast
  then have 3: "\<exists>s'. handleEvent event (snd (NotifierForFile s P)) = Inr s' \<and>
                     entry_unchanged Q s s'"
    using entry_unchanged_trans [OF 1] by blast
  from 1 2 3 show ?thesis by blast
qed

theorem unrelated_paths_independent_witness:
  "invar example_pending \<and> ''/d/b'' \<noteq> ''/d/a'' \<and>
   filesToNotifiers example_pending ''/d/a'' = Some 0 \<and>
   chans example_pending ! 0 = Open \<and>
   NotifierForFile example_pending ''/d/b'' =
     ((Some 1, None),
      example_pending\<lparr>filesToNotifiers := [''/d/a'' \<mapsto> 0, ''/d/b'' \<mapsto> 1],
                      chans := [Open, Open]\<rparr>) \<and>
   handleEvent \<lparr>Name = ''/d/b'', Op = Write\<rparr> (snd (NotifierForFile example_pending ''/d/b'')) =
     Inr (example_pending\<lparr>chans := [Open, Closed]\<rparr>) \<and>
   entry_unchanged ''/d/a'' example_pending (example_pending\<lparr>chans := [Open, Closed]\<rparr>)"
proof -
  have n: "NotifierForFile example_pending ''/d/b'' =
     ((Some 1, None),
      example_pending\<lparr>filesToNotifiers := [''/d/a'' \<mapsto> 0, ''/d/b'' \<mapsto> 1],
                      chans := [Open, Open]\<rparr>)"
    by (simp add: NotifierForFile_def make_chan_def LoadOrStore_def example_pending_def)
  have h: "handleEvent \<lparr>Name = ''/d/b'', Op = Write\<rparr>
             (example_pending\<lparr>filesToNotifiers := [''/d/a'' \<mapsto> 0, ''/d/b'' \<mapsto> 1],
                              chans := [Open, Open]\<rparr>) =
           Inr (example_pending\<lparr>chans := [Open, Closed]\<rparr>)"
    by (simp add: handleEvent_def carries_def LoadAndDelete_def close_chan_def
        example_pending_def fun_upd_twist)
  from unrelated_paths_independent
    [OF invar_example_pending, of "''/d/b''" "''/d/a''" "\<lparr>Name = ''/d/b'', Op = Write\<rparr>"]
  show ?thesis using invar_example_pending n h
    by (simp add: example_pending_def)
qed

text \<open>
  C8. The dispatch loop returns exactly when the stream of receive results contains an
  end of stream. When it returns, it has handled the events before the first end of
  stream, \<open>Close\<close> has run once on the watcher, the registry is the one left by the
  last event, and every channel still in it is open.
\<close>

theorem loop_termination:
  assumes "invar s"
  shows "((\<exists>r. initializeWatcher events s = Some r) \<longleftrightarrow> (\<exists>n. events !! n = None)) \<and>
         (\<forall>r. initializeWatcher events s = Some r \<longrightarrow>
            (\<exists>n s' final. events !! n = None \<and> (\<forall>k<n. events !! k \<noteq> None) \<and>
               handleEvents (map the (stake n events)) s = Inr s' \<and>
               r = Inr final \<and> final = s'\<lparr>watcher := Close (watcher s')\<rparr> \<and>
               closeCalls (watcher final) = Suc (closeCalls (watcher s)) \<and>
               filesToNotifiers final = filesToNotifiers s' \<and>
               (\<forall>p c. filesToNotifiers final p = Some c \<longrightarrow>
                  c < length (chans final) \<and> chans final ! c = Open)))"
proof -
  have ends: "\<exists>m s'. events !! m = None \<and> (\<forall>k<m. events !! k \<noteq> None) \<and>
                handleEvents (map the (stake m events)) s = Inr s' \<and> invar s' \<and>
                watcher s' = watcher s \<and>
                initializeWatcher events s = Some (Inr (s'\<lparr>watcher := Close (watcher s')\<rparr>))"
    if "events !! n = None" for n
  proof -
    from eventLoop_ends [OF that, of s] obtain m
      where m: "events !! m = None" "\<forall>k<m. events !! k \<noteq> None"
        "eventLoop events s = Some (handleEvents (map the (stake m events)) s)" by blast
    from handleEvents_invar [OF assms, of "map the (stake m events)"] obtain s'
      where s': "handleEvents (map the (stake m events)) s = Inr s'" "invar s'"
        "watcher s' = watcher s" by blast
    have "initializeWatcher events s = Some (Inr (s'\<lparr>watcher := Close (watcher s')\<rparr>))"
      using m(3) s'(1) by (simp add: initializeWatcher_def)
    with m(1,2) s' show ?thesis by blast
  qed
  have returns: "\<exists>n. events !! n = None" if "initializeWatcher events s = Some r" for r
  proof -
    from that obtain r' where "eventLoop events s = Some r'"
      by (auto simp add: initializeWatcher_def split: option.splits)
    then show ?thesis using assms by (rule eventLoop_returns)
  qed
  have iff: "(\<exists>r. initializeWatcher events s = Some r) \<longleftrightarrow> (\<exists>n. events !! n = None)"
    using ends returns by blast
  have final: "\<exists>n s' final. events !! n = None \<and> (\<forall>k<n. events !! k \<noteq> None) \<and>
               handleEvents (map the (stake n events)) s = Inr s' \<and>
               r = Inr final \<and> final = s'\<lparr>watcher := Close (watcher s')\<rparr> \<and>
               closeCalls (watcher final) = Suc (closeCalls (watcher s)) \<and>
               filesToNotifiers final = filesToNotifiers s' \<and>
               (\<forall>p c. filesToNotifiers final p = Some c \<longrightarrow>
                  c < length (chans final) \<and> chans final ! c = Open)"
    if r: "initializeWatcher events s = Some r" for r
  proof -
    from returns [OF r] obtain n where "events !! n = None" by blast
    from ends [OF this] obtain m s'
      where m: "events !! m = None" "\<forall>k<m. events !! k \<noteq> None"
        "handleEvents (map the (stake m events)) s = Inr s'" "invar s'"
        "watcher s' = watcher s"
        "initializeWatcher events s = Some (Inr (s'\<lparr>watcher := Close (watcher s')\<rparr>))"
      by blast
    let ?final = "s'\<lparr>watcher := Close (watcher s')\<rparr>"
    from m(6) r have 1: "r = Inr ?final" by simp
    have 2: "closeCalls (watcher ?final) = Suc (closeCalls (watcher s))"
      using m(5) by (simp add: Close_def)
    have 3: "filesToNotifiers ?final = filesToNotifiers s'" by simp
    have 4: "\<forall>p c. filesToNotifiers ?final p = Some c \<longrightarrow>
                  c < length (chans ?final) \<and> chans ?final ! c = Open"
      using invar_bound [OF m(4)] by simp
    from m(1,2,3) 1 2 3 4 show ?thesis by blast
  qed
  from iff final show ?thesis by blast
qed

theorem loop_termination_witness:
  "invar example_pending \<and>
   (Some \<lparr>Name = ''/d/b'', Op = Write\<rparr> ## sconst None) !! 1 = None \<and>
   initializeWatcher (Some \<lparr>Name = ''/d/b'', Op = Write\<rparr> ## sconst None) example_pending =
     Some (Inr (example_pending\<lparr>watcher := \<lparr>watches = [''/d''], closeCalls = 1\<rparr>\<rparr>)) \<and>
   filesToNotifiers example_pending ''/d/a'' = Some 0 \<and> chans example_pending ! 0 = Open"
proof -
  let ?src = "Some \<lparr>Name = ''/d/b'', Op = Write\<rparr> ## sconst None"
  have 1: "?src !! 1 = None" by simp
  note inst = loop_termination [OF invar_example_pending, of ?src]
  from inst 1 obtain r where r: "initializeWatcher ?src example_pending = Some r" by blast
  with inst obtain n s' where n: "?src !! n = None" "\<forall>k<n. ?src !! k \<noteq> None"
    and s': "handleEvents (map the (stake n ?src)) example_pending = Inr s'"
      "r = Inr (s'\<lparr>watcher := Close (watcher s')\<rparr>)" by blast
  have "n = 1"
  proof -
    have "n \<noteq> 0" using n(1) by (cases n) simp_all
    moreover have "\<not> 1 < n" using n(2) 1 by blast
    ultimately show ?thesis by simp
  qed
  then have "s' = example_pending" using s'(1)
    by (simp add: handleEvent_def example_pending_def carries_def LoadAndDelete_def)
  then have "r = Inr (example_pending\<lparr>watcher := \<lparr>watches = [''/d''], closeCalls = 1\<rparr>\<rparr>)"
    using s'(2) by (simp add: example_pending_def Close_def)
  with r 1 invar_example_pending show ?thesis by (simp add: example_pending_def)
qed

text \<open>
  C9. With no configured operation, an event, a run of events and the whole loop leave
  the state as it is: no entry is removed and no channel is closed.
\<close>

theorem empty_ops_never_resolve:
  assumes "opsToWatch s = []"
  shows "handleEvent event s = Inr s \<and> handleEvents events s = Inr s \<and>
         (\<forall>n. src !! n = None \<longrightarrow>
            initializeWatcher src s = Some (Inr (s\<lparr>watcher := Close (watcher s)\<rparr>)))"
proof (intro conjI allI impI)
  show "handleEvent event s = Inr s" using assms by (rule handleEvent_no_ops)
  show "handleEvents events s = Inr s" using assms by (rule handleEvents_no_ops)
  fix n
  assume "src !! n = None"
  from eventLoop_ends [OF this, of s] obtain m
    where "eventLoop src s = Some (handleEvents (map the (stake m src)) s)" by blast
  then have "eventLoop src s = Some (Inr s)"
    using assms by (simp add: handleEvents_no_ops)
  then show "initializeWatcher src s = Some (Inr (s\<lparr>watcher := Close (watcher s)\<rparr>))"
    by (simp add: initializeWatcher_def)
qed

theorem empty_ops_never_resolve_witness:
  "opsToWatch (example_pending\<lparr>opsToWatch := []\<rparr>) = [] \<and>
   filesToNotifiers (example_pending\<lparr>opsToWatch := []\<rparr>) ''/d/a'' = Some 0 \<and>
   handleEvent \<lparr>Name = ''/d/a'', Op = Write\<rparr> (example_pending\<lparr>opsToWatch := []\<rparr>) =
     Inr (example_pending\<lparr>opsToWatch := []\<rparr>) \<and>
   (Some \<lparr>Name = ''/d/a'', Op = Write\<rparr> ## sconst None) !! 1 = None \<and>
   initializeWatcher (Some \<lparr>Name = ''/d/a'', Op = Write\<rparr> ## sconst None)
       (example_pending\<lparr>opsToWatch := []\<rparr>) =
     Some (Inr (example_pending\<lparr>opsToWatch := [],
                  watcher := \<lparr>watches = [''/d''], closeCalls = 1\<rparr>\<rparr>))"
proof -
  have 0: "opsToWatch (example_pending\<lparr>opsToWatch := []\<rparr>) = []" by simp
  have 1: "(Some \<lparr>Name = ''/d/a'', Op = Write\<rparr> ## sconst None) !! 1 = None" by simp
  let ?s = "example_pending\<lparr>opsToWatch := []\<rparr>"
  let ?src = "Some \<lparr>Name = ''/d/a'', Op = Write\<rparr> ## sconst None"
  note inst = empty_ops_never_resolve [OF 0, of "\<lparr>Name = ''/d/a'', Op = Write\<rparr>" "[]" ?src]
  from inst have a: "handleEvent \<lparr>Name = ''/d/a'', Op = Write\<rparr> ?s = Inr ?s" by blast
  from inst 1 have b: "initializeWatcher ?src ?s = Some (Inr (?s\<lparr>watcher := Close (watcher ?s)\<rparr>))"
    by blast
  have c: "?s\<lparr>watcher := Close (watcher ?s)\<rparr> =
           example_pending\<lparr>opsToWatch := [], watcher := \<lparr>watches = [''/d''], closeCalls = 1\<rparr>\<rparr>"
    by (simp add: example_pending_def Close_def)
  have d: "filesToNotifiers ?s ''/d/a'' = Some 0" by (simp add: example_pending_def)
  from 0 d a 1 b [unfolded c] show ?thesis by blast
qed

text \<open>
  C10. Whenever \<open>NotifierForFile P\<close> returns an error, the channel it returns is
  \<open>nil\<close> and \<open>P\<close> had an entry; in particular, when \<open>P\<close> has an entry with channel
  \<open>c\<close>, the call does not return \<open>c\<close>.
\<close>

theorem duplicate_returns_nil:
  "(\<forall>e. snd (fst (NotifierForFile s P)) = Some e \<longrightarrow>
      fst (fst (NotifierForFile s P)) = None \<and> filesToNotifiers s P \<noteq> None) \<and>
   (\<forall>c. filesToNotifiers s P = Some c \<longrightarrow>
      fst (NotifierForFile s P) =
        (None, Some (''exec watcher already watching file '' @ P)) \<and>
      fst (fst (NotifierForFile s P)) \<noteq> Some c)"
  by (cases "filesToNotifiers s P")
    (simp_all add: NotifierForFile_present NotifierForFile_absent)

theorem duplicate_returns_nil_witness:
  "filesToNotifiers example_pending ''/d/a'' = Some 0 \<and>
   snd (fst (NotifierForFile example_pending ''/d/a'')) =
     Some ''exec watcher already watching file /d/a'' \<and>
   fst (fst (NotifierForFile example_pending ''/d/a'')) = None"
  using duplicate_returns_nil [of example_pending "''/d/a''"]
  by (simp add: example_pending_def)

end
